theory Spec2Isabelle
  imports
    Main
    "HOL-Library.Word"
    "HOL-Library.AList"
    "HOL-Library.Multiset"
    "HOL-Library.Product_Lexorder"
begin

unbundle bit_operations_syntax

section \<open>Data model of \<open>binary_to_3d.py\<close>\<close>

text \<open>
  The input is a Python \<open>bytes\<close> object: a list of 8-bit values. Dimensions, coordinates,
  bit values and the diagnostic indices are Python integers (\<open>int\<close>): nothing in the source
  restricts the dimensions to positive values, and the last-byte index may be \<open>-1\<close>.
  An entry of a result list is the tuple \<open>(x, y, z, bit)\<close>.
\<close>

type_synonym byte = "8 word"
type_synonym dims = "int \<times> int \<times> int"
type_synonym coord = "int \<times> int \<times> int"
type_synonym entry = "int \<times> int \<times> int \<times> int"

text \<open>The exceptions the mapping functions can raise.\<close>

datatype error = ZeroDivisionError | ValueError | IndexError

text \<open>Python's \<open>%\<close> and \<open>//\<close> on integers: floor division, raising on a zero divisor.\<close>

definition py_mod :: "int \<Rightarrow> int \<Rightarrow> error + int" where
  "py_mod a b = (if b = 0 then Inl ZeroDivisionError else Inr (a mod b))"

definition py_floordiv :: "int \<Rightarrow> int \<Rightarrow> error + int" where
  "py_floordiv a b = (if b = 0 then Inl ZeroDivisionError else Inr (a div b))"

text \<open>\<open>bit = (byte >> (7 - bit_idx)) & 1\<close>\<close>

definition extract_bit :: "byte \<Rightarrow> nat \<Rightarrow> int" where
  "extract_bit byte bit_idx = uint (drop_bit (7 - bit_idx) byte AND 1)"

text \<open>
  The coordinate arithmetic of lines 41--43 and 59--61, in the order the source evaluates it:
  \<open>x = position % max_x\<close>, \<open>y = (position // max_x) % max_y\<close>,
  \<open>z = position // (max_x * max_y)\<close>.
\<close>

definition decode_position :: "int \<Rightarrow> int \<Rightarrow> int \<Rightarrow> error + coord" where
  "decode_position max_x max_y position =
     (case py_mod position max_x of Inl e \<Rightarrow> Inl e | Inr x \<Rightarrow>
      case py_floordiv position max_x of Inl e \<Rightarrow> Inl e | Inr q \<Rightarrow>
      case py_mod q max_y of Inl e \<Rightarrow> Inl e | Inr y \<Rightarrow>
      case py_floordiv position (max_x * max_y) of Inl e \<Rightarrow> Inl e | Inr z \<Rightarrow>
        Inr (x, y, z))"

text \<open>
  How a loop body ends: it falls through to the next iteration with the updated
  \<open>(result, bit_position)\<close>, it executes the \<open>return\<close> inside the loop, or it raises.
\<close>

datatype flow =
    Next "entry list" int
  | Return "entry list \<times> int \<times> int"
  | Raise error

section \<open>Sequential placement\<close>

text \<open>The inner loop \<open>for bit_idx in range(8)\<close> of \<open>binary_to_3d_sequential\<close>.\<close>

fun sequential_bits ::
  "dims \<Rightarrow> int \<Rightarrow> int \<Rightarrow> byte \<Rightarrow> nat list \<Rightarrow> entry list \<Rightarrow> int \<Rightarrow> flow" where
  "sequential_bits ds byte_idx n byte [] result bit_position = Next result bit_position"
| "sequential_bits ds byte_idx n byte (bit_idx # rest) result bit_position =
     (case ds of (max_x, max_y, max_z) \<Rightarrow>
        let total_positions = max_x * max_y * max_z;
            bit = extract_bit byte bit_idx
        in case py_mod bit_position total_positions of
             Inl e \<Rightarrow> Raise e
           | Inr position \<Rightarrow>
               (case decode_position max_x max_y position of
                  Inl e \<Rightarrow> Raise e
                | Inr (x, y, z) \<Rightarrow>
                    let result' = result @ [(x, y, z, bit)];
                        bit_position' = bit_position + 1
                    in if bit_position' \<ge> total_positions
                       then Return (result', byte_idx, n)
                       else sequential_bits ds byte_idx n byte rest result' bit_position'))"

text \<open>The outer loop \<open>for byte_idx, byte in enumerate(binary_data)\<close>.\<close>

fun sequential_bytes ::
  "dims \<Rightarrow> int \<Rightarrow> (nat \<times> byte) list \<Rightarrow> entry list \<Rightarrow> int \<Rightarrow> flow" where
  "sequential_bytes ds n [] result bit_position = Next result bit_position"
| "sequential_bytes ds n ((byte_idx, byte) # rest) result bit_position =
     (case sequential_bits ds (int byte_idx) n byte [0..<8] result bit_position of
        Next result' bit_position' \<Rightarrow> sequential_bytes ds n rest result' bit_position'
      | Return r \<Rightarrow> Return r
      | Raise e \<Rightarrow> Raise e)"

text \<open>The fill loop \<open>for position in range(bit_position, total_positions)\<close>.\<close>

fun sequential_fill :: "int \<Rightarrow> int \<Rightarrow> int \<Rightarrow> int list \<Rightarrow> entry list \<Rightarrow> error + entry list" where
  "sequential_fill max_x max_y default_bit [] result = Inr result"
| "sequential_fill max_x max_y default_bit (position # rest) result =
     (case decode_position max_x max_y position of
        Inl e \<Rightarrow> Inl e
      | Inr (x, y, z) \<Rightarrow>
          sequential_fill max_x max_y default_bit rest (result @ [(x, y, z, default_bit)]))"

definition binary_to_3d_sequential ::
  "byte list \<Rightarrow> dims \<Rightarrow> bool \<Rightarrow> int \<Rightarrow> error + (entry list \<times> int \<times> int)" where
  "binary_to_3d_sequential binary_data dimensions fill_empty default_bit =
     (case dimensions of (max_x, max_y, max_z) \<Rightarrow>
        let total_positions = max_x * max_y * max_z;
            n = int (length binary_data)
        in case sequential_bytes dimensions n (enumerate 0 binary_data) [] 0 of
             Raise e \<Rightarrow> Inl e
           | Return r \<Rightarrow> Inr r
           | Next result bit_position \<Rightarrow>
               if fill_empty \<and> bit_position < total_positions
               then (case sequential_fill max_x max_y default_bit
                             [bit_position .. total_positions - 1] result of
                       Inl e \<Rightarrow> Inl e
                     | Inr result' \<Rightarrow> Inr (result', n - 1, n))
               else Inr (result, n - 1, n))"


section \<open>The \<open>random\<close> module\<close>

text \<open>
  The two randomized strategies call \<open>random.seed\<close>, \<open>random.shuffle\<close> and
  \<open>random.randint\<close> of the Python standard library, which work on one process-wide
  generator state. The library is not part of the repository, so the generator is a
  parameter of the model: a type \<open>'g\<close> of generator states, the state \<open>seed_of s\<close> that
  \<open>random.seed(s)\<close> installs, and a step \<open>draw g n\<close> that yields a raw number and the next
  state when a value below \<open>n\<close> is asked for. Nothing is assumed about \<open>draw\<close>:
  \<open>randbelow\<close> reduces the raw number into \<open>range(n)\<close>, which is the only property of the
  library's \<open>_randbelow\<close> that the mapping code relies on. On top of it, \<open>randint\<close> and
  \<open>shuffle\<close> follow the library: \<open>randint(a, b)\<close> raises \<open>ValueError\<close> on an empty range
  and otherwise returns \<open>a + _randbelow(b - a + 1)\<close>; \<open>shuffle(x)\<close> runs
  \<open>for i in reversed(range(1, len(x))): j = _randbelow(i + 1); x[i], x[j] = x[j], x[i]\<close>.
  The generator state is threaded through every call and returned with the result.

  Both randomized functions also call \<open>np.random.seed(seed)\<close>. NumPy's generator is never
  drawn from, so its state is not modelled, but the call itself can fail: NumPy accepts an
  integer seed only between \<open>0\<close> and \<open>2**32 - 1\<close> and raises \<open>ValueError\<close> otherwise, while
  \<open>random.seed\<close> accepts every integer.
\<close>

record 'g random_module =
  seed_of :: "int \<Rightarrow> 'g"
  draw :: "'g \<Rightarrow> int \<Rightarrow> int \<times> 'g"

definition randbelow :: "'g random_module \<Rightarrow> 'g \<Rightarrow> int \<Rightarrow> int \<times> 'g" where
  "randbelow R g n = (case draw R g n of (r, g') \<Rightarrow> (r mod n, g'))"

definition randint :: "'g random_module \<Rightarrow> 'g \<Rightarrow> int \<Rightarrow> int \<Rightarrow> error + (int \<times> 'g)" where
  "randint R g a b =
     (if b < a then Inl ValueError
      else case randbelow R g (b - a + 1) of (r, g') \<Rightarrow> Inr (a + r, g'))"

fun shuffle_steps :: "'g random_module \<Rightarrow> nat list \<Rightarrow> 'a list \<Rightarrow> 'g \<Rightarrow> 'a list \<times> 'g" where
  "shuffle_steps R [] x g = (x, g)"
| "shuffle_steps R (i # rest) x g =
     (case randbelow R g (int i + 1) of (j, g') \<Rightarrow>
        shuffle_steps R rest (x[i := x ! nat j, nat j := x ! i]) g')"

definition shuffle :: "'g random_module \<Rightarrow> 'a list \<Rightarrow> 'g \<Rightarrow> 'a list \<times> 'g" where
  "shuffle R x g = shuffle_steps R (rev [1..<length x]) x g"

text \<open>
  \<open>if seed is not None: random.seed(seed); np.random.seed(seed)\<close> (lines 81--83 and
  144--146). The first call installs the seeded state; the second one raises for a seed out
  of NumPy's range, and the exception leaves the function.
\<close>

definition np_random_seed :: "int \<Rightarrow> error + unit" where
  "np_random_seed s = (if s < 0 \<or> s > 2 ^ 32 - 1 then Inl ValueError else Inr ())"

definition set_seed :: "'g random_module \<Rightarrow> int option \<Rightarrow> 'g \<Rightarrow> error + 'g" where
  "set_seed R seed g =
     (case seed of
        None \<Rightarrow> Inr g
      | Some s \<Rightarrow>
          let g' = seed_of R s
          in case np_random_seed s of Inl e \<Rightarrow> Inl e | Inr u \<Rightarrow> Inr g')"

text \<open>\<open>list(product(range(max_x), range(max_y), range(max_z)))\<close>: the last axis varies fastest.\<close>

definition product_coords :: "int \<Rightarrow> int \<Rightarrow> int \<Rightarrow> coord list" where
  "product_coords max_x max_y max_z =
     List.product [0..max_x - 1] (List.product [0..max_y - 1] [0..max_z - 1])"

text \<open>Python list indexing: a negative index counts from the end, out of range raises.\<close>

definition py_index :: "'a list \<Rightarrow> int \<Rightarrow> error + 'a" where
  "py_index xs i =
     (if 0 \<le> i \<and> i < int (length xs) then Inr (xs ! nat i)
      else if i < 0 \<and> - int (length xs) \<le> i then Inr (xs ! nat (int (length xs) + i))
      else Inl IndexError)"

section \<open>Randomized-position placement\<close>

text \<open>The inner loop of \<open>binary_to_3d_random_positions\<close>.\<close>

fun random_positions_bits ::
  "coord list \<Rightarrow> int \<Rightarrow> int \<Rightarrow> byte \<Rightarrow> nat list \<Rightarrow> entry list \<Rightarrow> int \<Rightarrow> flow" where
  "random_positions_bits all_coords byte_idx n byte [] result bit_position =
     Next result bit_position"
| "random_positions_bits all_coords byte_idx n byte (bit_idx # rest) result bit_position =
     (let total_positions = int (length all_coords);
          bit = extract_bit byte bit_idx
      in if bit_position < total_positions
         then (case py_index all_coords bit_position of
                 Inl e \<Rightarrow> Raise e
               | Inr (x, y, z) \<Rightarrow>
                   random_positions_bits all_coords byte_idx n byte rest
                     (result @ [(x, y, z, bit)]) (bit_position + 1))
         else Return (result, byte_idx, n))"

fun random_positions_bytes ::
  "coord list \<Rightarrow> int \<Rightarrow> (nat \<times> byte) list \<Rightarrow> entry list \<Rightarrow> int \<Rightarrow> flow" where
  "random_positions_bytes all_coords n [] result bit_position = Next result bit_position"
| "random_positions_bytes all_coords n ((byte_idx, byte) # rest) result bit_position =
     (case random_positions_bits all_coords (int byte_idx) n byte [0..<8] result bit_position of
        Next result' bit_position' \<Rightarrow>
          random_positions_bytes all_coords n rest result' bit_position'
      | Return r \<Rightarrow> Return r
      | Raise e \<Rightarrow> Raise e)"

text \<open>The fill loop \<open>for i in range(bit_position, total_positions)\<close>.\<close>

fun random_positions_fill ::
  "coord list \<Rightarrow> int \<Rightarrow> int list \<Rightarrow> entry list \<Rightarrow> error + entry list" where
  "random_positions_fill all_coords default_bit [] result = Inr result"
| "random_positions_fill all_coords default_bit (i # rest) result =
     (case py_index all_coords i of
        Inl e \<Rightarrow> Inl e
      | Inr (x, y, z) \<Rightarrow>
          random_positions_fill all_coords default_bit rest (result @ [(x, y, z, default_bit)]))"

definition binary_to_3d_random_positions ::
  "'g random_module \<Rightarrow> byte list \<Rightarrow> dims \<Rightarrow> bool \<Rightarrow> int \<Rightarrow> int option \<Rightarrow> 'g \<Rightarrow>
     error + ((entry list \<times> int \<times> int) \<times> 'g)" where
  "binary_to_3d_random_positions R binary_data dimensions fill_empty default_bit seed g =
     (case set_seed R seed g of
        Inl e \<Rightarrow> Inl e
      | Inr g0 \<Rightarrow>
          (case dimensions of (max_x, max_y, max_z) \<Rightarrow>
           case shuffle R (product_coords max_x max_y max_z) g0 of
             (all_coords, g') \<Rightarrow>
               let total_positions = int (length all_coords);
                   n = int (length binary_data)
               in case random_positions_bytes all_coords n (enumerate 0 binary_data) [] 0 of
                    Raise e \<Rightarrow> Inl e
                  | Return r \<Rightarrow> Inr (r, g')
                  | Next result bit_position \<Rightarrow>
                      if fill_empty \<and> bit_position < total_positions
                      then (case random_positions_fill all_coords default_bit
                                    [bit_position .. total_positions - 1] result of
                              Inl e \<Rightarrow> Inl e
                            | Inr result' \<Rightarrow> Inr ((result', n - 1, n), g'))
                      else Inr ((result, n - 1, n), g')))"

section \<open>Randomized-assignment placement\<close>

text \<open>
  \<open>result_dict\<close> is a Python dictionary: it keeps its keys in the order of their first
  insertion and an assignment to a present key replaces the value in place. That is
  \<open>AList.update\<close> on an association list. The loop state is
  \<open>(result_dict, bit_count, generator)\<close>. The loop variable \<open>byte_idx\<close> is not used by
  this function, so the outer loop runs over the bytes themselves.
\<close>

type_synonym 'g draw_state = "(coord \<times> int) list \<times> int \<times> 'g"

fun random_assignment_bits ::
  "'g random_module \<Rightarrow> dims \<Rightarrow> byte \<Rightarrow> nat list \<Rightarrow> 'g draw_state \<Rightarrow> error + 'g draw_state" where
  "random_assignment_bits R ds byte [] st = Inr st"
| "random_assignment_bits R ds byte (bit_idx # rest) st =
     (case ds of (max_x, max_y, max_z) \<Rightarrow>
      case st of (result_dict, bit_count, g) \<Rightarrow>
        let total_positions = max_x * max_y * max_z;
            bit = extract_bit byte bit_idx
        in case randint R g 0 (max_x - 1) of Inl e \<Rightarrow> Inl e | Inr (x, g1) \<Rightarrow>
           case randint R g1 0 (max_y - 1) of Inl e \<Rightarrow> Inl e | Inr (y, g2) \<Rightarrow>
           case randint R g2 0 (max_z - 1) of Inl e \<Rightarrow> Inl e | Inr (z, g3) \<Rightarrow>
             let result_dict' = AList.update (x, y, z) bit result_dict;
                 bit_count' = bit_count + 1
             in if bit_count' \<ge> total_positions
                then Inr (result_dict', bit_count', g3)
                else random_assignment_bits R ds byte rest (result_dict', bit_count', g3))"

fun random_assignment_bytes ::
  "'g random_module \<Rightarrow> dims \<Rightarrow> byte list \<Rightarrow> 'g draw_state \<Rightarrow> error + 'g draw_state" where
  "random_assignment_bytes R ds [] st = Inr st"
| "random_assignment_bytes R ds (byte # rest) st =
     (case random_assignment_bits R ds byte [0..<8] st of
        Inl e \<Rightarrow> Inl e
      | Inr (result_dict, bit_count, g) \<Rightarrow>
          (case ds of (max_x, max_y, max_z) \<Rightarrow>
             if bit_count \<ge> max_x * max_y * max_z
             then Inr (result_dict, bit_count, g)
             else random_assignment_bytes R ds rest (result_dict, bit_count, g)))"

text \<open>The draw phase (lines 143--182): seeding and the two nested loops.\<close>

definition random_assignment_draws ::
  "'g random_module \<Rightarrow> byte list \<Rightarrow> dims \<Rightarrow> int option \<Rightarrow> 'g \<Rightarrow> error + 'g draw_state" where
  "random_assignment_draws R binary_data dimensions seed g =
     (case set_seed R seed g of
        Inl e \<Rightarrow> Inl e
      | Inr g0 \<Rightarrow> random_assignment_bytes R dimensions binary_data ([], 0, g0))"

text \<open>\<open>result_dict.get((x, y, z), default_bit)\<close>\<close>

definition dict_get :: "(coord \<times> int) list \<Rightarrow> coord \<Rightarrow> int \<Rightarrow> int" where
  "dict_get result_dict k default_bit =
     (case map_of result_dict k of None \<Rightarrow> default_bit | Some v \<Rightarrow> v)"

definition binary_to_3d_random_assignment ::
  "'g random_module \<Rightarrow> byte list \<Rightarrow> dims \<Rightarrow> bool \<Rightarrow> int \<Rightarrow> int option \<Rightarrow> 'g \<Rightarrow>
     error + ((entry list \<times> int \<times> int) \<times> 'g)" where
  "binary_to_3d_random_assignment R binary_data dimensions fill_empty default_bit seed g =
     (case dimensions of (max_x, max_y, max_z) \<Rightarrow>
      case random_assignment_draws R binary_data dimensions seed g of
        Inl e \<Rightarrow> Inl e
      | Inr (result_dict, bit_count, g') \<Rightarrow>
          let n = int (length binary_data);
              result =
                (if fill_empty
                 then map (\<lambda>(x, y, z). (x, y, z, dict_get result_dict (x, y, z) default_bit))
                        (product_coords max_x max_y max_z)
                 else map (\<lambda>((x, y, z), bit). (x, y, z, bit)) result_dict)
          in Inr ((result, n - 1, n), g'))"


section \<open>The driver \<open>binary_to_3d\<close>\<close>

text \<open>
  The driver reads the input file, selects the mapping function, sorts the result of the
  randomized modes, writes one line per entry and prints a warning and a summary. File
  access is outside the model: the driver takes the bytes read. A run is recorded by the
  entries written (one output line \<open>(x, y, z)<TAB>bit\<close> each), the messages printed and the
  way the process ends: normally, through \<open>sys.exit\<close>, or with an uncaught exception.
  The percentage of the summary is a floating-point quotient; the model keeps its two
  operands and the \<open>ZeroDivisionError\<close> of a zero divisor.
\<close>

datatype message =
    UnknownMode string
  | Warning int int
  | SummaryHeader
  | SummaryInput int int
  | SummarySpace int int int int
  | SummaryFilled int int
  | SummaryDefault int

datatype status = Completed | Exit int | Uncaught error

record run =
  written :: "entry list"
  printed :: "message list"
  status :: status

text \<open>The \<open>if\<close>/\<open>elif\<close> chain on \<open>mapping_mode\<close> (lines 229--237); \<open>None\<close> is its \<open>else\<close> branch.\<close>

definition select_mapping ::
  "'g random_module \<Rightarrow> byte list \<Rightarrow> dims \<Rightarrow> string \<Rightarrow> bool \<Rightarrow> int \<Rightarrow> int option \<Rightarrow> 'g \<Rightarrow>
     (error + ((entry list \<times> int \<times> int) \<times> 'g)) option" where
  "select_mapping R binary_data dimensions mapping_mode fill_empty default_bit seed g =
     (if mapping_mode = ''sequential''
      then Some (case binary_to_3d_sequential binary_data dimensions fill_empty default_bit of
                   Inl e \<Rightarrow> Inl e
                 | Inr r \<Rightarrow> Inr (r, g))
      else if mapping_mode = ''random_positions''
      then Some (binary_to_3d_random_positions R binary_data dimensions fill_empty default_bit seed g)
      else if mapping_mode = ''random_assignment''
      then Some (binary_to_3d_random_assignment R binary_data dimensions fill_empty default_bit seed g)
      else None)"

definition binary_to_3d ::
  "'g random_module \<Rightarrow> byte list \<Rightarrow> dims \<Rightarrow> string \<Rightarrow> bool \<Rightarrow> int \<Rightarrow> int option \<Rightarrow> 'g \<Rightarrow> run" where
  "binary_to_3d R binary_data dimensions mapping_mode fill_empty default_bit seed g =
     (case select_mapping R binary_data dimensions mapping_mode fill_empty default_bit seed g of
        None \<Rightarrow> \<lparr>written = [], printed = [UnknownMode mapping_mode], status = Exit 1\<rparr>
      | Some (Inl e) \<Rightarrow> \<lparr>written = [], printed = [], status = Uncaught e\<rparr>
      | Some (Inr ((result, last_byte_idx, total_bytes), g')) \<Rightarrow>
          (case dimensions of (d0, d1, d2) \<Rightarrow>
             let sorted_result =
                   (if mapping_mode \<in> set [''random_positions'', ''random_assignment'']
                    then sort_key (\<lambda>(x, y, z, b). (z, y, x)) result
                    else result);
                 warning =
                   (if last_byte_idx < total_bytes - 1 \<and> \<not> fill_empty
                    then [Warning (last_byte_idx + 1) total_bytes]
                    else []);
                 total_bits = int (length binary_data) * 8;
                 total_positions = d0 * d1 * d2;
                 filled_positions = int (length sorted_result);
                 summary =
                   [SummaryHeader, SummaryInput total_bytes total_bits,
                    SummarySpace d0 d1 d2 total_positions]
             in if total_positions = 0
                then \<lparr>written = sorted_result, printed = warning @ summary,
                      status = Uncaught ZeroDivisionError\<rparr>
                else \<lparr>written = sorted_result,
                      printed = warning @ summary @
                        [SummaryFilled filled_positions total_positions] @
                        (if fill_empty \<and> total_bits < total_positions
                         then [SummaryDefault (total_positions - min total_bits total_positions)]
                         else []),
                      status = Completed\<rparr>))"

section \<open>Notions used to state the properties\<close>

text \<open>
  The seeds with which seeding raises nothing: no seed, or an integer in NumPy's range; and
  the generator state the function then starts from.
\<close>

definition seed_accepted :: "int option \<Rightarrow> bool" where
  "seed_accepted seed = (case seed of None \<Rightarrow> True | Some s \<Rightarrow> 0 \<le> s \<and> s < 2 ^ 32)"

definition start_state :: "'g random_module \<Rightarrow> int option \<Rightarrow> 'g \<Rightarrow> 'g" where
  "start_state R seed g = (case seed of None \<Rightarrow> g | Some s \<Rightarrow> seed_of R s)"

text \<open>The cells of the grid, and the capacity.\<close>

definition grid :: "int \<Rightarrow> int \<Rightarrow> int \<Rightarrow> coord set" where
  "grid max_x max_y max_z = {0..max_x - 1} \<times> {0..max_y - 1} \<times> {0..max_z - 1}"

text \<open>
  The dictionary of randomized assignment as an association list: every key once, and every
  key a cell of the grid.
\<close>

definition dict_ok :: "int \<Rightarrow> int \<Rightarrow> int \<Rightarrow> (coord \<times> int) list \<Rightarrow> bool" where
  "dict_ok max_x max_y max_z d \<longleftrightarrow> distinct (map fst d) \<and> fst ` set d \<subseteq> grid max_x max_y max_z"

text \<open>Whether a run printed the warning of line 253.\<close>

definition is_warning :: "message \<Rightarrow> bool" where
  "is_warning m = (case m of Warning a b \<Rightarrow> True | _ \<Rightarrow> False)"

definition warned :: "run \<Rightarrow> bool" where
  "warned r = list_ex is_warning (printed r)"

text \<open>The bit stream of the input: eight bits per byte, most significant bit first.\<close>

definition byte_bits :: "byte \<Rightarrow> int list" where
  "byte_bits byte = map (extract_bit byte) [0..<8]"

definition bits_of :: "byte list \<Rightarrow> int list" where
  "bits_of binary_data = concat (map byte_bits binary_data)"

text \<open>The cell of a linear position, where no division can fail.\<close>

definition cell :: "int \<Rightarrow> int \<Rightarrow> int \<Rightarrow> coord" where
  "cell max_x max_y position =
     (position mod max_x, (position div max_x) mod max_y, position div (max_x * max_y))"

definition with_bit :: "coord \<Rightarrow> int \<Rightarrow> entry" where
  "with_bit c b = (case c of (x, y, z) \<Rightarrow> (x, y, z, b))"

definition coord_of :: "entry \<Rightarrow> coord" where
  "coord_of e = (case e of (x, y, z, b) \<Rightarrow> (x, y, z))"

definition bit_of :: "entry \<Rightarrow> int" where
  "bit_of e = (case e of (x, y, z, b) \<Rightarrow> b)"

text \<open>The cells in row-major order, x fastest: the order of sequential placement.\<close>

definition row_major :: "int \<Rightarrow> int \<Rightarrow> int \<Rightarrow> coord list" where
  "row_major max_x max_y max_z = map (cell max_x max_y) [0..max_x * max_y * max_z - 1]"

text \<open>Pairing a list of coordinates with a list of bits, up to the shorter of the two.\<close>

definition attach :: "coord list \<Rightarrow> int list \<Rightarrow> entry list" where
  "attach cs bs = map (\<lambda>(c, b). with_bit c b) (zip cs bs)"

definition placed :: "int \<Rightarrow> int \<Rightarrow> int list \<Rightarrow> int list \<Rightarrow> entry list" where
  "placed max_x max_y positions bits = attach (map (cell max_x max_y) positions) bits"

text \<open>
  The list that results from walking an order \<open>cs\<close> of the cells: the input bits on the
  first cells, and with fill-empty the default bit on the cells that are left.
\<close>

definition laid_out :: "coord list \<Rightarrow> int list \<Rightarrow> bool \<Rightarrow> int \<Rightarrow> entry list" where
  "laid_out cs bits fill_empty default_bit =
     attach cs bits @
     (if fill_empty then map (\<lambda>c. with_bit c default_bit) (drop (length bits) cs) else [])"

text \<open>
  An assignment stays within the capacity when it lists no cell twice and only cells of the
  grid, so that it has at most Capacity entries; it covers the grid when it has exactly
  Capacity entries and every cell occurs.
\<close>

definition within_capacity :: "int \<Rightarrow> int \<Rightarrow> int \<Rightarrow> entry list \<Rightarrow> bool" where
  "within_capacity max_x max_y max_z res \<longleftrightarrow>
     distinct (map coord_of res) \<and> coord_of ` set res \<subseteq> grid max_x max_y max_z \<and>
     card (coord_of ` set res) \<le> nat (max_x * max_y * max_z) \<and>
     length res \<le> nat (max_x * max_y * max_z)"

definition covers_grid :: "int \<Rightarrow> int \<Rightarrow> int \<Rightarrow> entry list \<Rightarrow> bool" where
  "covers_grid max_x max_y max_z res \<longleftrightarrow>
     length res = nat (max_x * max_y * max_z) \<and> coord_of ` set res = grid max_x max_y max_z"

text \<open>
  A small linear congruential generator, used to run the randomized functions on concrete
  inputs. It stands for no particular library generator.
\<close>

definition example_random :: "int random_module" where
  "example_random =
     \<lparr>seed_of = (\<lambda>s. \<bar>s\<bar>), draw = (\<lambda>g n. (g div 8, (g * 75 + 74) mod 65537))\<rparr>"

section \<open>Coordinates, bits and entries\<close>

lemma decode_position_cell:
  "max_x \<noteq> 0 \<Longrightarrow> max_y \<noteq> 0 \<Longrightarrow> decode_position max_x max_y p = Inr (cell max_x max_y p)"
  by (simp add: decode_position_def py_mod_def py_floordiv_def cell_def)

lemma attach_Nil [simp]: "attach [] bs = []" "attach cs [] = []"
  by (simp_all add: attach_def)

lemma attach_Cons [simp]: "attach (c # cs) (b # bs) = with_bit c b # attach cs bs"
  by (simp add: attach_def)

lemma length_attach [simp]: "length (attach cs bs) = min (length cs) (length bs)"
  by (simp add: attach_def)

lemma attach_append:
  "attach cs (bs @ bs') = attach cs bs @ attach (drop (length bs) cs) bs'"
proof (induction bs arbitrary: cs)
  case Nil
  show ?case by simp
next
  case (Cons b bs)
  show ?case by (cases cs) (simp_all add: Cons.IH)
qed

lemma coord_of_with_bit [simp]: "coord_of (with_bit c b) = c"
  by (cases c) (simp add: coord_of_def with_bit_def)

lemma bit_of_with_bit [simp]: "bit_of (with_bit c b) = b"
  by (cases c) (simp add: bit_of_def with_bit_def)

lemma map_coord_of_attach: "map coord_of (attach cs bs) = take (length bs) cs"
proof (induction cs arbitrary: bs)
  case Nil
  show ?case by simp
next
  case (Cons c cs)
  show ?case by (cases bs) (simp_all add: Cons.IH)
qed

lemma placed_Nil [simp]: "placed mx my [] bs = []" "placed mx my ps [] = []"
  by (simp_all add: placed_def)

lemma placed_Cons:
  "placed mx my (p # ps) (b # bs) = with_bit (cell mx my p) b # placed mx my ps bs"
  by (simp add: placed_def)

lemma length_placed [simp]: "length (placed mx my ps bs) = min (length ps) (length bs)"
  by (simp add: placed_def)

lemma drop_upto: "drop k [p..t] = [p + int k..t]"
proof (induction k arbitrary: p)
  case 0
  show ?case by simp
next
  case (Suc k)
  show ?case
  proof (cases "p \<le> t")
    case True
    then have "[p..t] = p # [p + 1..t]" by (simp add: upto_rec1)
    then show ?thesis using Suc [of "p + 1"] by (simp add: algebra_simps)
  next
    case False
    then show ?thesis by simp
  qed
qed

lemma placed_upto_append:
  "placed mx my [p..t] (bs @ cs) = placed mx my [p..t] bs @ placed mx my [p + int (length bs)..t] cs"
  by (simp add: placed_def attach_append drop_map drop_upto)

section \<open>Sequential placement: what the loops compute\<close>

lemma length_byte_bits [simp]: "length (byte_bits b) = 8"
  by (simp add: byte_bits_def)

lemma length_bits_of [simp]: "length (bits_of bs) = 8 * length bs"
  by (induction bs) (simp_all add: bits_of_def)

lemma bits_of_Nil [simp]: "bits_of [] = []"
  by (simp add: bits_of_def)

lemma bits_of_Cons: "bits_of (b # bs) = byte_bits b @ bits_of bs"
  by (simp add: bits_of_def)

lemma sequential_bits_char:
  assumes "0 < max_x" "0 < max_y" "0 < max_z" "0 \<le> bp" "bp < max_x * max_y * max_z"
  shows "sequential_bits (max_x, max_y, max_z) bi n byte ks result bp =
     (if max_x * max_y * max_z \<le> bp + int (length ks)
      then Return (result @ placed max_x max_y [bp..max_x * max_y * max_z - 1] (map (extract_bit byte) ks), bi, n)
      else Next (result @ placed max_x max_y [bp..max_x * max_y * max_z - 1] (map (extract_bit byte) ks))
             (bp + int (length ks)))"
  using assms(4,5)
proof (induction ks arbitrary: result bp)
  case Nil
  then show ?case by simp
next
  case (Cons k ks)
  let ?T = "max_x * max_y * max_z"
  have dec: "decode_position max_x max_y bp = Inr (cell max_x max_y bp)"
    using assms(1,2) by (simp add: decode_position_cell)
  have md: "py_mod bp ?T = Inr bp"
    using Cons.prems assms(1,2,3) by (simp add: py_mod_def)
  have up: "[bp..?T - 1] = bp # [bp + 1..?T - 1]"
    using Cons.prems by (simp add: upto_rec1)
  show ?case
  proof (cases "?T \<le> bp + 1")
    case True
    then have "[bp + 1..?T - 1] = []" by simp
    with True md dec up show ?thesis
      by (simp add: placed_Cons with_bit_def cell_def Let_def split: prod.splits)
  next
    case False
    then have lt: "bp + 1 < ?T" and nn: "0 \<le> bp + 1" using Cons.prems by simp_all
    from Cons.IH [OF nn lt] False md dec up show ?thesis
      by (simp add: placed_Cons with_bit_def cell_def Let_def add.assoc split: prod.splits)
  qed
qed

lemma sequential_bytes_char:
  assumes "0 < max_x" "0 < max_y" "0 < max_z" "0 \<le> bp" "bp < max_x * max_y * max_z"
  shows "sequential_bytes (max_x, max_y, max_z) n (enumerate k bs) result bp =
     (if max_x * max_y * max_z \<le> bp + 8 * int (length bs)
      then Return (result @ placed max_x max_y [bp..max_x * max_y * max_z - 1] (bits_of bs),
                   int k + (max_x * max_y * max_z - bp - 1) div 8, n)
      else Next (result @ placed max_x max_y [bp..max_x * max_y * max_z - 1] (bits_of bs))
             (bp + 8 * int (length bs)))"
  using assms(4,5)
proof (induction bs arbitrary: k result bp)
  case Nil
  then show ?case by simp
next
  case (Cons b bs)
  let ?T = "max_x * max_y * max_z"
  note inner = sequential_bits_char [OF assms(1,2,3) Cons.prems, of "int k" n b "[0..<8]" result]
  have split: "placed max_x max_y [bp..?T - 1] (bits_of (b # bs)) =
      placed max_x max_y [bp..?T - 1] (byte_bits b) @ placed max_x max_y [bp + 8..?T - 1] (bits_of bs)"
    by (simp add: bits_of_Cons placed_upto_append)
  show ?case
  proof (cases "?T \<le> bp + 8")
    case True
    then have e: "[bp + 8..?T - 1] = []" by simp
    have d: "(?T - bp - 1) div 8 = 0" using True Cons.prems by simp
    from True have le: "?T \<le> bp + 8 * int (length (b # bs))" by simp
    show ?thesis
      unfolding split e using True le d inner
      by (simp add: byte_bits_def)
  next
    case False
    then have lt: "bp + 8 < ?T" and nn: "0 \<le> bp + 8" using Cons.prems by simp_all
    have d: "(?T - (bp + 8) - 1) div 8 = (?T - bp - 1) div 8 - 1" by simp
    from Cons.IH [OF nn lt, of "Suc k"] False inner d show ?thesis
      unfolding split
      by (simp add: byte_bits_def algebra_simps)
  qed
qed

lemma sequential_fill_char:
  "max_x \<noteq> 0 \<Longrightarrow> max_y \<noteq> 0 \<Longrightarrow>
   sequential_fill max_x max_y default_bit ps result =
     Inr (result @ map (\<lambda>p. with_bit (cell max_x max_y p) default_bit) ps)"
  by (induction ps arbitrary: result)
     (simp_all add: decode_position_cell with_bit_def split: prod.splits)

lemma sequential_char:
  assumes "0 < max_x" "0 < max_y" "0 < max_z"
  shows "binary_to_3d_sequential binary_data (max_x, max_y, max_z) fill_empty default_bit =
     Inr (placed max_x max_y [0..max_x * max_y * max_z - 1] (bits_of binary_data) @
          (if fill_empty
           then map (\<lambda>p. with_bit (cell max_x max_y p) default_bit)
                  [8 * int (length binary_data)..max_x * max_y * max_z - 1]
           else []),
          (if max_x * max_y * max_z \<le> 8 * int (length binary_data)
           then (max_x * max_y * max_z - 1) div 8
           else int (length binary_data) - 1),
          int (length binary_data))"
proof -
  let ?T = "max_x * max_y * max_z"
  have pos: "0 < ?T" using assms by simp
  note outer = sequential_bytes_char [OF assms _ pos, of "int (length binary_data)" 0 binary_data "[]"]
  show ?thesis
  proof (cases "?T \<le> 8 * int (length binary_data)")
    case True
    then have "[8 * int (length binary_data)..?T - 1] = []" by simp
    with True outer show ?thesis
      by (simp add: binary_to_3d_sequential_def Let_def)
  next
    case False
    with outer assms show ?thesis
      by (simp add: binary_to_3d_sequential_def sequential_fill_char Let_def)
  qed
qed

text \<open>
  Claim C5. For positive dimensions and every linear index \<open>i\<close> with
  \<open>0 \<le> i < max_x * max_y * max_z\<close>, the decoding of the source
  (\<open>x = i % max_x\<close>, \<open>y = (i // max_x) % max_y\<close>, \<open>z = i // (max_x * max_y)\<close>) raises
  nothing and re-encoding \<open>x + y * max_x + z * max_x * max_y\<close> gives \<open>i\<close> again; the
  decoded coordinate lies in the grid.
\<close>

theorem decode_roundtrip:
  assumes "0 < max_x" "0 < max_y" "0 < max_z" "0 \<le> i" "i < max_x * max_y * max_z"
  shows "\<exists>x y z. decode_position max_x max_y i = Inr (x, y, z) \<and>
           x + y * max_x + z * max_x * max_y = i \<and>
           0 \<le> x \<and> x < max_x \<and> 0 \<le> y \<and> y < max_y \<and> 0 \<le> z \<and> z < max_z"
proof -
  have d: "decode_position max_x max_y i = Inr (cell max_x max_y i)"
    using assms by (simp add: decode_position_cell)
  have e1: "i div (max_x * max_y) = (i div max_x) div max_y"
    using assms by (simp add: zdiv_zmult2_eq)
  have inner: "(i div max_x) mod max_y + max_y * ((i div max_x) div max_y) = i div max_x"
    by (rule mod_mult_div_eq)
  have "i mod max_x + (i div max_x) mod max_y * max_x + (i div max_x) div max_y * max_x * max_y
      = i mod max_x + max_x * ((i div max_x) mod max_y + max_y * ((i div max_x) div max_y))"
    by (simp only: algebra_simps)
  also have "\<dots> = i mod max_x + max_x * (i div max_x)" by (simp only: inner)
  also have "\<dots> = i" by (rule mod_mult_div_eq)
  finally have rt: "i mod max_x + (i div max_x) mod max_y * max_x + i div (max_x * max_y) * max_x * max_y = i"
    using e1 by simp
  have zb: "i div (max_x * max_y) < max_z"
  proof -
    let ?c = "max_x * max_y"
    have c: "0 < ?c" using assms by simp
    have i: "i < max_z * ?c" using assms by (simp add: algebra_simps)
    have "0 \<le> i mod ?c" using c by simp
    moreover have "?c * (i div ?c) + i mod ?c = i" by simp
    ultimately have le: "(i div ?c) * ?c \<le> i" by (simp add: algebra_simps)
    show ?thesis
    proof (rule ccontr)
      assume "\<not> i div ?c < max_z"
      then have "max_z \<le> i div ?c" by simp
      then have "max_z * ?c \<le> (i div ?c) * ?c" using c by (simp add: mult_right_mono)
      with le i show False by simp
    qed
  qed
  have znn: "0 \<le> i div (max_x * max_y)" using assms by (simp add: pos_imp_zdiv_nonneg_iff)
  show ?thesis
    using d rt zb znn assms by (simp add: cell_def)
qed

theorem decode_roundtrip_witness:
  "\<exists>x y z. decode_position 2 3 17 = Inr (x, y, z) \<and> x + y * 2 + z * 2 * 3 = 17"
  using decode_roundtrip [of 2 3 4 17] by auto

text \<open>
  Claim C6. Sequential placement of the single byte \<open>0xB0\<close> on the grid \<open>(2, 2, 2)\<close> with
  fill-empty on and default bit 0 returns exactly eight entries, in row-major order with x
  fastest: position 0 holds 1, position 1 holds 0, positions 2 and 3 hold 1, positions 4 to 7
  hold 0; position 0 is \<open>(0, 0, 0)\<close>, position 1 is \<open>(1, 0, 0)\<close>, position 4 is \<open>(0, 0, 1)\<close>.
\<close>

theorem sequential_example:
  "binary_to_3d_sequential [0xB0] (2, 2, 2) True 0 =
     Inr ([(0, 0, 0, 1), (1, 0, 0, 0), (0, 1, 0, 1), (1, 1, 0, 1),
           (0, 0, 1, 0), (1, 0, 1, 0), (0, 1, 1, 0), (1, 1, 1, 0)], 0, 1)"
  by code_simp

section \<open>Shuffling and randomized-position placement\<close>

lemma randbelow_range: "0 < n \<Longrightarrow> 0 \<le> fst (randbelow R g n) \<and> fst (randbelow R g n) < n"
  by (simp add: randbelow_def split: prod.splits)

lemma shuffle_steps_mset:
  "\<forall>i \<in> set idxs. i < length x \<Longrightarrow> mset (fst (shuffle_steps R idxs x g)) = mset x"
proof (induction idxs arbitrary: x g)
  case Nil
  show ?case by simp
next
  case (Cons i idxs)
  obtain j g' where rb: "randbelow R g (int i + 1) = (j, g')"
    by (cases "randbelow R g (int i + 1)")
  have "0 \<le> fst (randbelow R g (int i + 1)) \<and> fst (randbelow R g (int i + 1)) < int i + 1"
    by (rule randbelow_range) simp
  with rb have j: "nat j < i + 1" by (simp add: nat_less_iff)
  have i: "i < length x" using Cons.prems by simp
  with j have jl: "nat j < length x" by simp
  let ?x' = "x[i := x ! nat j, nat j := x ! i]"
  have sw: "mset ?x' = mset x" using i jl by (simp add: mset_swap)
  have "\<forall>k \<in> set idxs. k < length ?x'" using Cons.prems by simp
  from Cons.IH [OF this, of g'] sw rb show ?case by simp
qed

lemma shuffle_mset: "mset (fst (shuffle R x g)) = mset x"
  unfolding shuffle_def by (rule shuffle_steps_mset) auto

lemma shuffle_length: "length (fst (shuffle R x g)) = length x"
  using shuffle_mset [of R x g] by (metis size_mset)

lemma shuffle_set: "set (fst (shuffle R x g)) = set x"
  using shuffle_mset [of R x g] by (metis set_mset_mset)

lemma shuffle_distinct: "distinct (fst (shuffle R x g)) = distinct x"
  using shuffle_mset [of R x g] by (metis distinct_count_atmost_1 count_mset set_mset_mset)

lemma distinct_product_coords: "distinct (product_coords mx my mz)"
  by (simp add: product_coords_def distinct_product)

lemma set_product_coords:
  "set (product_coords mx my mz) = {0..mx - 1} \<times> {0..my - 1} \<times> {0..mz - 1}"
  by (simp add: product_coords_def)

lemma length_product_coords:
  "0 < mx \<Longrightarrow> 0 < my \<Longrightarrow> 0 < mz \<Longrightarrow> int (length (product_coords mx my mz)) = mx * my * mz"
  by (simp add: product_coords_def length_product nat_mult_distrib)

lemma py_index_in_range:
  "0 \<le> i \<Longrightarrow> i < int (length xs) \<Longrightarrow> py_index xs i = Inr (xs ! nat i)"
  by (simp add: py_index_def)

lemma random_positions_bits_char:
  assumes "0 \<le> bp" "bp \<le> int (length cs)"
  shows "random_positions_bits cs bi n byte ks result bp =
     (if int (length cs) < bp + int (length ks)
      then Return (result @ attach (drop (nat bp) cs) (map (extract_bit byte) ks), bi, n)
      else Next (result @ attach (drop (nat bp) cs) (map (extract_bit byte) ks))
             (bp + int (length ks)))"
  using assms
proof (induction ks arbitrary: result bp)
  case Nil
  then show ?case by simp
next
  case (Cons k ks)
  show ?case
  proof (cases "bp < int (length cs)")
    case True
    then have ix: "py_index cs bp = Inr (cs ! nat bp)"
      using Cons.prems by (simp add: py_index_in_range)
    have dr: "drop (nat bp) cs = cs ! nat bp # drop (nat (bp + 1)) cs"
      using True Cons.prems by (simp add: Cons_nth_drop_Suc nat_add_distrib)
    have nn: "0 \<le> bp + 1" and le: "bp + 1 \<le> int (length cs)"
      using True Cons.prems by simp_all
    from Cons.IH [OF nn le] True ix dr show ?thesis
      by (simp add: with_bit_def Let_def add.assoc split: prod.splits)
  next
    case False
    then have "drop (nat bp) cs = []" using Cons.prems by simp
    with False show ?thesis by (simp add: Let_def)
  qed
qed

lemma random_positions_bytes_char:
  assumes "0 \<le> bp" "bp \<le> int (length cs)"
  shows "random_positions_bytes cs n (enumerate k bs) result bp =
     (if int (length cs) < bp + 8 * int (length bs)
      then Return (result @ attach (drop (nat bp) cs) (bits_of bs),
                   int k + (int (length cs) - bp) div 8, n)
      else Next (result @ attach (drop (nat bp) cs) (bits_of bs)) (bp + 8 * int (length bs)))"
  using assms
proof (induction bs arbitrary: k result bp)
  case Nil
  then show ?case by simp
next
  case (Cons b bs)
  let ?T = "int (length cs)"
  note inner = random_positions_bits_char [OF Cons.prems, of "int k" n b "[0..<8]" result]
  have split: "attach (drop (nat bp) cs) (bits_of (b # bs)) =
      attach (drop (nat bp) cs) (byte_bits b) @ attach (drop (nat (bp + 8)) cs) (bits_of bs)"
    using Cons.prems by (simp add: bits_of_Cons attach_append nat_add_distrib add.commute)
  show ?case
  proof (cases "?T < bp + 8")
    case True
    then have e: "drop (nat (bp + 8)) cs = []" using Cons.prems by simp
    have d: "(?T - bp) div 8 = 0" using True Cons.prems by simp
    from True have lt: "?T < bp + 8 * int (length (b # bs))" by simp
    show ?thesis
      unfolding split e using True lt d inner
      by (simp add: byte_bits_def)
  next
    case False
    then have le: "bp + 8 \<le> ?T" and nn: "0 \<le> bp + 8" using Cons.prems by simp_all
    have d: "(?T - (bp + 8)) div 8 = (?T - bp) div 8 - 1" by simp
    from Cons.IH [OF nn le, of "Suc k"] False inner d show ?thesis
      unfolding split
      by (simp add: byte_bits_def algebra_simps)
  qed
qed

lemma map_nth_upto: "0 \<le> bp \<Longrightarrow> map (\<lambda>i. cs ! nat i) [bp..int (length cs) - 1] = drop (nat bp) cs"
  by (rule nth_equalityI) (auto simp: nat_add_distrib)

lemma random_positions_fill_char:
  "\<forall>i \<in> set idxs. 0 \<le> i \<and> i < int (length cs) \<Longrightarrow>
   random_positions_fill cs default_bit idxs result =
     Inr (result @ map (\<lambda>i. with_bit (cs ! nat i) default_bit) idxs)"
  by (induction idxs arbitrary: result)
     (simp_all add: py_index_in_range with_bit_def split: prod.splits)

lemma set_seed_accepted:
  "seed_accepted seed \<Longrightarrow> set_seed R seed g = Inr (start_state R seed g)"
  by (cases seed) (simp_all add: seed_accepted_def set_seed_def start_state_def np_random_seed_def)

lemma set_seed_rejected: "\<not> seed_accepted seed \<Longrightarrow> set_seed R seed g = Inl ValueError"
  by (cases seed) (auto simp: seed_accepted_def set_seed_def np_random_seed_def)

lemma random_positions_rejected_seed:
  "\<not> seed_accepted seed \<Longrightarrow>
   binary_to_3d_random_positions R binary_data dimensions fill_empty default_bit seed g =
     Inl ValueError"
  by (simp add: binary_to_3d_random_positions_def set_seed_rejected)

lemma random_positions_char:
  assumes "seed_accepted seed"
  shows "binary_to_3d_random_positions R binary_data (mx, my, mz) fill_empty default_bit seed g =
     Inr ((attach (fst (shuffle R (product_coords mx my mz) (start_state R seed g))) (bits_of binary_data) @
           (if fill_empty
            then map (\<lambda>c. with_bit c default_bit)
                   (drop (8 * length binary_data)
                      (fst (shuffle R (product_coords mx my mz) (start_state R seed g))))
            else []),
           (if int (length (product_coords mx my mz)) < 8 * int (length binary_data)
            then int (length (product_coords mx my mz)) div 8
            else int (length binary_data) - 1),
           int (length binary_data)),
          snd (shuffle R (product_coords mx my mz) (start_state R seed g)))"
proof -
  obtain cs g' where sh: "shuffle R (product_coords mx my mz) (start_state R seed g) = (cs, g')"
    by (cases "shuffle R (product_coords mx my mz) (start_state R seed g)")
  have len: "length cs = length (product_coords mx my mz)"
    using shuffle_length [of R "product_coords mx my mz" "start_state R seed g"] sh by simp
  let ?n = "int (length binary_data)"
  note outer = random_positions_bytes_char [of 0 cs ?n 0 binary_data "[]"]
  show ?thesis
  proof (cases "int (length cs) < 8 * ?n")
    case True
    then have "drop (8 * length binary_data) cs = []" by simp
    with True outer sh len show ?thesis
      by (simp add: binary_to_3d_random_positions_def Let_def set_seed_accepted [OF assms])
  next
    case False
    have fill: "random_positions_fill cs default_bit [8 * ?n..int (length cs) - 1]
                  (attach cs (bits_of binary_data)) =
                Inr (attach cs (bits_of binary_data) @
                     map (\<lambda>c. with_bit c default_bit) (drop (8 * length binary_data) cs))"
    proof -
      have "map (\<lambda>i. with_bit (cs ! nat i) default_bit) [8 * ?n..int (length cs) - 1] =
            map (\<lambda>c. with_bit c default_bit) (map (\<lambda>i. cs ! nat i) [8 * ?n..int (length cs) - 1])"
        by (simp add: comp_def)
      also have "\<dots> = map (\<lambda>c. with_bit c default_bit) (drop (nat (8 * ?n)) cs)"
        by (simp add: map_nth_upto)
      finally show ?thesis
        by (subst random_positions_fill_char) (auto simp: nat_mult_distrib)
    qed
    have e: "\<not> 8 * ?n < int (length cs) \<Longrightarrow> drop (8 * length binary_data) cs = []"
      by simp
    from False outer sh len fill e show ?thesis
      by (auto simp add: binary_to_3d_random_positions_def Let_def set_seed_accepted [OF assms])
  qed
qed

text \<open>
  Claim C4. Under randomized-position placement, for every input, all positive dimensions
  and every seed the function accepts (no seed, or an integer from \<open>0\<close> to \<open>2**32 - 1\<close>),
  the function returns a result whose coordinates are pairwise distinct and lie in the
  grid, and whose entry at each consumed bit position holds that input bit: two distinct
  bit positions are never assigned the same coordinate. (With any other seed the function
  raises \<open>ValueError\<close> and returns nothing, see \<open>random_positions_rejected_seed\<close>.)
\<close>

theorem random_positions_injective:
  assumes "0 < max_x" "0 < max_y" "0 < max_z" "seed_accepted seed"
  shows "\<exists>res last total g'.
           binary_to_3d_random_positions R binary_data (max_x, max_y, max_z)
             fill_empty default_bit seed g = Inr ((res, last, total), g') \<and>
           distinct (map coord_of res) \<and>
           set (map coord_of res) \<subseteq> {0..max_x - 1} \<times> {0..max_y - 1} \<times> {0..max_z - 1} \<and>
           (\<forall>i. i < length res \<and> i < 8 * length binary_data \<longrightarrow>
                 bit_of (res ! i) = bits_of binary_data ! i)"
proof -
  let ?cs = "fst (shuffle R (product_coords max_x max_y max_z) (start_state R seed g))"
  let ?bs = "bits_of binary_data"
  let ?fill = "if fill_empty
               then map (\<lambda>c. with_bit c default_bit) (drop (8 * length binary_data) ?cs) else []"
  let ?res = "attach ?cs ?bs @ ?fill"
  have dcs: "distinct ?cs" by (simp add: shuffle_distinct distinct_product_coords)
  have scs: "set ?cs = {0..max_x - 1} \<times> {0..max_y - 1} \<times> {0..max_z - 1}"
    by (simp add: shuffle_set set_product_coords)
  have co: "map coord_of ?res =
      take (8 * length binary_data) ?cs @ (if fill_empty then drop (8 * length binary_data) ?cs else [])"
    by (simp add: map_coord_of_attach comp_def)
  have d: "distinct (map coord_of ?res)"
  proof (cases fill_empty)
    case True
    then show ?thesis unfolding co using dcs by simp
  next
    case False
    then show ?thesis unfolding co using dcs by simp
  qed
  have s: "set (map coord_of ?res) \<subseteq> {0..max_x - 1} \<times> {0..max_y - 1} \<times> {0..max_z - 1}"
  proof -
    have "set (map coord_of ?res) \<subseteq> set ?cs"
      unfolding co by (auto dest: in_set_takeD in_set_dropD)
    then show ?thesis using scs by simp
  qed
  have b: "\<forall>i. i < length ?res \<and> i < 8 * length binary_data \<longrightarrow> bit_of (?res ! i) = ?bs ! i"
  proof (intro allI impI)
    fix i assume h: "i < length ?res \<and> i < 8 * length binary_data"
    show "bit_of (?res ! i) = ?bs ! i"
    proof (cases "i < length (attach ?cs ?bs)")
      case True
      then have "?res ! i = attach ?cs ?bs ! i" by (simp add: nth_append)
      also have "\<dots> = with_bit (?cs ! i) (?bs ! i)" using True by (simp add: attach_def)
      finally show ?thesis by simp
    next
      case False
      with h have "length ?cs \<le> i" by simp
      with h show ?thesis by (auto split: if_splits)
    qed
  qed
  show ?thesis
    unfolding random_positions_char [OF assms(4)] using d s b by blast
qed

theorem random_positions_injective_witness:
  "\<exists>res last total g'.
     binary_to_3d_random_positions example_random [0xB0, 0x0F] (2, 2, 2) True 0 (Some 7) 0 =
       Inr ((res, last, total), g') \<and> distinct (map coord_of res) \<and> length res = 8"
proof -
  have "binary_to_3d_random_positions example_random [0xB0, 0x0F] (2, 2, 2) True 0 (Some 7) 0 =
     Inr (([(0, 1, 1, 1), (1, 1, 0, 0), (1, 1, 1, 1), (1, 0, 1, 1),
            (0, 0, 1, 0), (0, 1, 0, 0), (1, 0, 0, 0), (0, 0, 0, 0)], 1, 2), 40318)"
    by code_simp
  with random_positions_injective [of 2 2 2 "Some 7" example_random "[0xB0, 0x0F]" True 0 0]
  show ?thesis by (auto simp: seed_accepted_def)
qed

text \<open>
  Claim C7. Randomized-position placement with an integer seed is reproducible: two runs
  with the same bytes, dimensions, fill policy and seed have the same outcome, whatever
  state the process-wide generator was in before each run: they return the same result and
  leave the same generator state, or (for a seed outside \<open>0 .. 2**32 - 1\<close>) both raise
  \<open>ValueError\<close>.
\<close>

theorem random_positions_seeded:
  "binary_to_3d_random_positions R binary_data dimensions fill_empty default_bit (Some s) g1 =
   binary_to_3d_random_positions R binary_data dimensions fill_empty default_bit (Some s) g2"
  by (simp add: binary_to_3d_random_positions_def set_seed_def)

text \<open>Without a seed the result does depend on the state the generator was left in.\<close>

lemma random_positions_unseeded_example:
  "binary_to_3d_random_positions example_random [0xB0] (2, 2, 2) True 0 None 1 \<noteq>
   binary_to_3d_random_positions example_random [0xB0] (2, 2, 2) True 0 None 2"
  by code_simp

section \<open>The grid and the layout of a result\<close>

lemma cell_encode:
  assumes "0 < max_x" "0 < max_y"
  shows "(case cell max_x max_y i of (x, y, z) \<Rightarrow> x + y * max_x + z * max_x * max_y) = i"
proof -
  have e1: "i div (max_x * max_y) = (i div max_x) div max_y"
    using assms by (simp add: zdiv_zmult2_eq)
  have inner: "(i div max_x) mod max_y + max_y * ((i div max_x) div max_y) = i div max_x"
    by (rule mod_mult_div_eq)
  have "i mod max_x + (i div max_x) mod max_y * max_x + (i div max_x) div max_y * max_x * max_y
      = i mod max_x + max_x * ((i div max_x) mod max_y + max_y * ((i div max_x) div max_y))"
    by (simp only: algebra_simps)
  also have "\<dots> = i mod max_x + max_x * (i div max_x)" by (simp only: inner)
  also have "\<dots> = i" by (rule mod_mult_div_eq)
  finally show ?thesis using e1 by (simp add: cell_def)
qed

lemma inj_cell:
  assumes "0 < max_x" "0 < max_y"
  shows "inj (cell max_x max_y)"
proof (rule injI)
  fix i j assume "cell max_x max_y i = cell max_x max_y j"
  then have "(case cell max_x max_y i of (x, y, z) \<Rightarrow> x + y * max_x + z * max_x * max_y) =
             (case cell max_x max_y j of (x, y, z) \<Rightarrow> x + y * max_x + z * max_x * max_y)"
    by simp
  then show "i = j" by (simp only: cell_encode [OF assms])
qed

lemma div_less_bound:
  fixes i c m :: int
  assumes c: "0 < c" and i: "i < m * c"
  shows "i div c < m"
proof (rule ccontr)
  assume "\<not> i div c < m"
  then have "m \<le> i div c" by simp
  then have a: "m * c \<le> (i div c) * c" using c by (simp add: mult_right_mono)
  have b: "0 \<le> i mod c" using c by simp
  have "(i div c) * c + i mod c = i" by simp
  with b have "(i div c) * c \<le> i" by linarith
  with a i show False by linarith
qed

lemma cell_in_grid:
  assumes "0 < max_x" "0 < max_y" "0 < max_z" "0 \<le> i" "i < max_x * max_y * max_z"
  shows "cell max_x max_y i \<in> grid max_x max_y max_z"
proof -
  have c: "0 < max_x * max_y" using assms by simp
  have "i < max_z * (max_x * max_y)" using assms by (simp add: algebra_simps)
  with c have zb: "i div (max_x * max_y) < max_z" by (rule div_less_bound)
  have znn: "0 \<le> i div (max_x * max_y)" using assms c by (simp add: pos_imp_zdiv_nonneg_iff)
  show ?thesis using zb znn assms by (simp add: cell_def grid_def)
qed

lemma card_grid:
  "0 < max_x \<Longrightarrow> 0 < max_y \<Longrightarrow> 0 < max_z \<Longrightarrow>
   card (grid max_x max_y max_z) = nat (max_x * max_y * max_z)"
  by (simp add: grid_def card_cartesian_product nat_mult_distrib)

lemma finite_grid: "finite (grid max_x max_y max_z)"
  by (simp add: grid_def)

lemma set_product_coords_grid: "set (product_coords mx my mz) = grid mx my mz"
  by (simp add: set_product_coords grid_def)

lemma length_row_major: "length (row_major mx my mz) = nat (mx * my * mz)"
  by (simp add: row_major_def)

lemma distinct_row_major: "0 < mx \<Longrightarrow> 0 < my \<Longrightarrow> distinct (row_major mx my mz)"
  unfolding row_major_def
  by (simp add: distinct_map) (meson inj_cell inj_on_subset subset_UNIV)

lemma set_row_major:
  assumes "0 < mx" "0 < my" "0 < mz"
  shows "set (row_major mx my mz) = grid mx my mz"
proof (rule card_subset_eq [OF finite_grid])
  show "set (row_major mx my mz) \<subseteq> grid mx my mz"
    using assms by (auto simp: row_major_def intro: cell_in_grid)
  show "card (set (row_major mx my mz)) = card (grid mx my mz)"
    using assms
    by (simp add: distinct_card [OF distinct_row_major] length_row_major card_grid)
qed

lemma laid_out_coords:
  "map coord_of (laid_out cs bs fe db) =
     take (length bs) cs @ (if fe then drop (length bs) cs else [])"
  by (simp add: laid_out_def map_coord_of_attach comp_def)

lemma laid_out_coords_fill [simp]: "map coord_of (laid_out cs bs True db) = cs"
  by (simp add: laid_out_coords)

lemma laid_out_distinct: "distinct cs \<Longrightarrow> distinct (map coord_of (laid_out cs bs fe db))"
proof (cases fe)
  case True
  assume "distinct cs" with True show ?thesis by simp
next
  case False
  assume "distinct cs" with False show ?thesis by (simp add: laid_out_coords)
qed

lemma laid_out_subset: "coord_of ` set (laid_out cs bs fe db) \<subseteq> set cs"
proof -
  have "set (map coord_of (laid_out cs bs fe db)) \<subseteq> set cs"
    unfolding laid_out_coords by (auto dest: in_set_takeD in_set_dropD)
  then show ?thesis by simp
qed

lemma laid_out_length:
  "length (laid_out cs bs fe db) = (if fe then length cs else min (length cs) (length bs))"
proof -
  have "length (laid_out cs bs fe db) = length (map coord_of (laid_out cs bs fe db))" by simp
  also have "\<dots> = (if fe then length cs else min (length cs) (length bs))"
    unfolding laid_out_coords by (auto simp: min_def)
  finally show ?thesis .
qed

lemma laid_out_bit:
  assumes "i < length (laid_out cs bs fe db)"
  shows "bit_of (laid_out cs bs fe db ! i) = (if i < length bs then bs ! i else db)"
proof (cases "i < length (attach cs bs)")
  case True
  then have "laid_out cs bs fe db ! i = attach cs bs ! i" by (simp add: laid_out_def nth_append)
  also have "\<dots> = with_bit (cs ! i) (bs ! i)" using True by (simp add: attach_def)
  finally show ?thesis using True by simp
next
  case False
  show ?thesis
  proof (cases fe)
    case True
    from assms True have ic: "i < length cs" by (simp add: laid_out_length)
    with False have nb: "length bs \<le> i" by simp
    with ic have la: "length (attach cs bs) = length bs" by simp
    have "laid_out cs bs fe db ! i =
          map (\<lambda>c. with_bit c db) (drop (length bs) cs) ! (i - length bs)"
      using nb ic True la by (simp add: laid_out_def nth_append)
    also have "\<dots> = with_bit (cs ! i) db"
    proof -
      have "drop (length bs) cs ! (i - length bs) = cs ! (length bs + (i - length bs))"
        using ic nb by (intro nth_drop) simp
      then show ?thesis using ic nb by simp
    qed
    finally show ?thesis using nb by simp
  next
    case fe: False
    with assms False show ?thesis by (simp add: laid_out_def)
  qed
qed

section \<open>Layouts of the three strategies\<close>

lemma sequential_laid_out:
  assumes "0 < max_x" "0 < max_y" "0 < max_z"
  shows "binary_to_3d_sequential binary_data (max_x, max_y, max_z) fill_empty default_bit =
     Inr (laid_out (row_major max_x max_y max_z) (bits_of binary_data) fill_empty default_bit,
          (if max_x * max_y * max_z \<le> 8 * int (length binary_data)
           then (max_x * max_y * max_z - 1) div 8
           else int (length binary_data) - 1),
          int (length binary_data))"
proof -
  have "map (\<lambda>p. with_bit (cell max_x max_y p) default_bit)
          [8 * int (length binary_data)..max_x * max_y * max_z - 1] =
        map (\<lambda>c. with_bit c default_bit)
          (drop (8 * length binary_data) (row_major max_x max_y max_z))"
    by (simp add: row_major_def drop_map drop_upto comp_def)
  then show ?thesis
    by (simp add: sequential_char [OF assms] laid_out_def placed_def row_major_def)
qed

lemma random_positions_laid_out:
  assumes "seed_accepted seed"
  shows "binary_to_3d_random_positions R binary_data (mx, my, mz) fill_empty default_bit seed g =
     Inr ((laid_out (fst (shuffle R (product_coords mx my mz) (start_state R seed g)))
             (bits_of binary_data) fill_empty default_bit,
           (if int (length (product_coords mx my mz)) < 8 * int (length binary_data)
            then int (length (product_coords mx my mz)) div 8
            else int (length binary_data) - 1),
           int (length binary_data)),
          snd (shuffle R (product_coords mx my mz) (start_state R seed g)))"
  by (simp add: random_positions_char [OF assms] laid_out_def)

lemma randint_in_range:
  assumes "0 < m"
  shows "\<exists>x g'. randint R g 0 (m - 1) = Inr (x, g') \<and> 0 \<le> x \<and> x \<le> m - 1"
proof -
  obtain r g' where d: "draw R g m = (r, g')" by (cases "draw R g m")
  have "0 \<le> r mod m \<and> r mod m < m" using assms by simp
  with d assms show ?thesis by (simp add: randint_def randbelow_def)
qed

lemma dict_ok_update:
  "dict_ok mx my mz d \<Longrightarrow> k \<in> grid mx my mz \<Longrightarrow> dict_ok mx my mz (AList.update k v d)"
  by (auto simp: dict_ok_def distinct_update dom_update)

lemma random_assignment_bits_ok:
  assumes "0 < mx" "0 < my" "0 < mz"
  shows "dict_ok mx my mz d \<Longrightarrow>
     \<exists>d' bc' g'. random_assignment_bits R (mx, my, mz) byte ks (d, bc, g) = Inr (d', bc', g') \<and>
        dict_ok mx my mz d'"
proof (induction ks arbitrary: d bc g)
  case Nil
  then show ?case by simp
next
  case (Cons k ks)
  obtain x g1 where x: "randint R g 0 (mx - 1) = Inr (x, g1)" "0 \<le> x" "x \<le> mx - 1"
    using randint_in_range [of mx R g, OF assms(1)] by blast
  obtain y g2 where y: "randint R g1 0 (my - 1) = Inr (y, g2)" "0 \<le> y" "y \<le> my - 1"
    using randint_in_range [of my R g1, OF assms(2)] by blast
  obtain z g3 where z: "randint R g2 0 (mz - 1) = Inr (z, g3)" "0 \<le> z" "z \<le> mz - 1"
    using randint_in_range [of mz R g2, OF assms(3)] by blast
  have "(x, y, z) \<in> grid mx my mz" using x y z by (simp add: grid_def)
  with Cons.prems have ok: "dict_ok mx my mz (AList.update (x, y, z) (extract_bit byte k) d)"
    by (rule dict_ok_update)
  show ?case
  proof (cases "bc + 1 \<ge> mx * my * mz")
    case True
    with ok show ?thesis
      apply (subst random_assignment_bits.simps)
      apply (simp only: prod.case Let_def x(1) y(1) z(1) sum.case if_True)
      apply blast
      done
  next
    case False
    with Cons.IH [OF ok, of "bc + 1" g3] show ?thesis
      apply (subst random_assignment_bits.simps)
      apply (simp only: prod.case Let_def x(1) y(1) z(1) sum.case if_False)
      done
  qed
qed

lemma random_assignment_bytes_ok:
  assumes "0 < mx" "0 < my" "0 < mz"
  shows "dict_ok mx my mz d \<Longrightarrow>
     \<exists>d' bc' g'. random_assignment_bytes R (mx, my, mz) bs (d, bc, g) = Inr (d', bc', g') \<and>
        dict_ok mx my mz d'"
proof (induction bs arbitrary: d bc g)
  case Nil
  then show ?case by simp
next
  case (Cons b bs)
  from random_assignment_bits_ok [OF assms Cons.prems, of R b "[0..<8]" bc g]
  obtain d1 bc1 g1 where
    s: "random_assignment_bits R (mx, my, mz) b [0..<8] (d, bc, g) = Inr (d1, bc1, g1)"
    and ok: "dict_ok mx my mz d1" by blast
  show ?case
  proof (cases "bc1 \<ge> mx * my * mz")
    case True
    with ok show ?thesis
      apply (subst random_assignment_bytes.simps)
      apply (simp only: s prod.case sum.case if_True)
      apply blast
      done
  next
    case False
    with Cons.IH [OF ok, of bc1 g1] show ?thesis
      apply (subst random_assignment_bytes.simps)
      apply (simp only: s prod.case sum.case if_False)
      done
  qed
qed

lemma random_assignment_draws_ok:
  assumes "0 < mx" "0 < my" "0 < mz" "seed_accepted seed"
  shows "\<exists>d bc g'. random_assignment_draws R binary_data (mx, my, mz) seed g = Inr (d, bc, g') \<and>
           dict_ok mx my mz d"
  using random_assignment_bytes_ok [OF assms(1,2,3), of "[]" R binary_data 0 "start_state R seed g"]
  by (simp add: random_assignment_draws_def set_seed_accepted [OF assms(4)] dict_ok_def)

lemma random_assignment_rejected_seed:
  "\<not> seed_accepted seed \<Longrightarrow>
   binary_to_3d_random_assignment R binary_data dimensions fill_empty default_bit seed g =
     Inl ValueError"
  by (simp add: binary_to_3d_random_assignment_def random_assignment_draws_def set_seed_rejected
      split: prod.splits)

lemma within_capacityI:
  assumes d: "distinct (map coord_of res)" and s: "coord_of ` set res \<subseteq> grid mx my mz"
    and pos: "0 < mx" "0 < my" "0 < mz"
  shows "within_capacity mx my mz res"
proof -
  have c: "card (coord_of ` set res) \<le> nat (mx * my * mz)"
    using card_mono [OF finite_grid s] card_grid [OF pos] by simp
  have "length res = length (map coord_of res)" by simp
  also have "\<dots> = card (set (map coord_of res))" using d by (simp only: distinct_card)
  also have "\<dots> = card (coord_of ` set res)" by simp
  finally have "length res \<le> nat (mx * my * mz)" using c by simp
  with d s c show ?thesis by (simp add: within_capacity_def)
qed

lemma laid_out_within:
  assumes "distinct cs" "set cs = grid mx my mz" "0 < mx" "0 < my" "0 < mz"
  shows "within_capacity mx my mz (laid_out cs bs fe db)"
proof (rule within_capacityI)
  show "distinct (map coord_of (laid_out cs bs fe db))" using assms(1) by (rule laid_out_distinct)
  show "coord_of ` set (laid_out cs bs fe db) \<subseteq> grid mx my mz"
    using laid_out_subset [of cs bs fe db] assms(2) by simp
qed (fact assms)+

lemma laid_out_covers:
  assumes "set cs = grid mx my mz" "length cs = nat (mx * my * mz)"
  shows "covers_grid mx my mz (laid_out cs bs True db)"
proof -
  have "set (map coord_of (laid_out cs bs True db)) = set cs"
    by (simp only: laid_out_coords_fill)
  then have e: "coord_of ` set (laid_out cs bs True db) = set cs" by (simp only: set_map)
  show ?thesis unfolding covers_grid_def e using assms by (simp add: laid_out_length)
qed

lemma laid_out_default:
  "i < length (laid_out cs bs fe db) \<Longrightarrow> length bs \<le> i \<Longrightarrow>
   bit_of (laid_out cs bs fe db ! i) = db"
  by (simp add: laid_out_bit)

lemma laid_out_no_bits:
  "laid_out cs [] fe db = (if fe then map (\<lambda>c. with_bit c db) cs else [])"
  by (simp add: laid_out_def attach_def)

lemma length_shuffled_coords:
  "0 < mx \<Longrightarrow> 0 < my \<Longrightarrow> 0 < mz \<Longrightarrow>
   length (fst (shuffle R (product_coords mx my mz) g)) = nat (mx * my * mz)"
  using length_product_coords [of mx my mz] by (simp add: shuffle_length)

lemma set_shuffled_coords:
  "set (fst (shuffle R (product_coords mx my mz) g)) = grid mx my mz"
  by (simp add: shuffle_set set_product_coords_grid)

lemma distinct_shuffled_coords:
  "distinct (fst (shuffle R (product_coords mx my mz) g))"
  by (simp add: shuffle_distinct distinct_product_coords)

lemma length_product_coords_nat:
  "0 < mx \<Longrightarrow> 0 < my \<Longrightarrow> 0 < mz \<Longrightarrow> length (product_coords mx my mz) = nat (mx * my * mz)"
  using length_product_coords [of mx my mz] by simp

text \<open>The list that randomized assignment returns, from the dictionary of its draw phase.\<close>

lemma random_assignment_result:
  assumes "random_assignment_draws R binary_data (mx, my, mz) seed g = Inr (d, bc, g')"
  shows "binary_to_3d_random_assignment R binary_data (mx, my, mz) fill_empty default_bit seed g =
     Inr ((if fill_empty
           then map (\<lambda>c. with_bit c (dict_get d c default_bit)) (product_coords mx my mz)
           else map (\<lambda>(c, b). with_bit c b) d,
           int (length binary_data) - 1, int (length binary_data)), g')"
proof -
  have a: "(\<lambda>(x, y, z). (x, y, z, dict_get d (x, y, z) default_bit)) =
           (\<lambda>c. with_bit c (dict_get d c default_bit))"
    by (auto simp: with_bit_def fun_eq_iff)
  have b: "(\<lambda>((x, y, z), b). (x, y, z, b)) = (\<lambda>(c, b). with_bit c b)"
    by (auto simp: with_bit_def fun_eq_iff)
  show ?thesis
    using assms by (simp add: binary_to_3d_random_assignment_def Let_def a b)
qed

lemma random_assignment_within:
  assumes "dict_ok mx my mz d" "0 < mx" "0 < my" "0 < mz"
  shows "within_capacity mx my mz
           (if fe then map (\<lambda>c. with_bit c (dict_get d c db)) (product_coords mx my mz)
            else map (\<lambda>(c, b). with_bit c b) d)"
proof (cases fe)
  case True
  have "map coord_of (map (\<lambda>c. with_bit c (dict_get d c db)) (product_coords mx my mz)) =
        product_coords mx my mz"
    by (simp add: comp_def)
  then have "distinct (map coord_of (map (\<lambda>c. with_bit c (dict_get d c db)) (product_coords mx my mz)))"
    and "coord_of ` set (map (\<lambda>c. with_bit c (dict_get d c db)) (product_coords mx my mz))
           \<subseteq> grid mx my mz"
    using distinct_product_coords [of mx my mz] set_product_coords_grid [of mx my mz]
    by (simp_all add: image_comp comp_def)
  then show ?thesis using True assms(2-4) by (simp add: within_capacityI)
next
  case False
  have m: "map coord_of (map (\<lambda>(c, b). with_bit c b) d) = map fst d"
    by (simp add: comp_def case_prod_unfold)
  have "set (map coord_of (map (\<lambda>(c, b). with_bit c b) d)) = fst ` set d"
    unfolding m by simp
  then have "coord_of ` set (map (\<lambda>(c, b). with_bit c b) d) = fst ` set d"
    by (simp only: set_map)
  then have s: "coord_of ` set (map (\<lambda>(c, b). with_bit c b) d) \<subseteq> grid mx my mz"
    using assms(1) by (simp add: dict_ok_def)
  have "distinct (map coord_of (map (\<lambda>(c, b). with_bit c b) d))"
    unfolding m using assms(1) by (simp add: dict_ok_def)
  then show ?thesis using False s assms(2-4) by (simp add: within_capacityI)
qed

lemma random_assignment_covers:
  assumes "0 < mx" "0 < my" "0 < mz"
  shows "covers_grid mx my mz (map (\<lambda>c. with_bit c (dict_get d c db)) (product_coords mx my mz))"
  using assms
  by (simp add: covers_grid_def length_product_coords_nat image_comp comp_def
      set_product_coords_grid)

lemma random_assignment_default:
  assumes "c \<in> grid mx my mz" "c \<notin> fst ` set d"
  shows "with_bit c db \<in> set (map (\<lambda>c. with_bit c (dict_get d c db)) (product_coords mx my mz))"
proof -
  have "map_of d c = None" using assms(2) by (simp add: map_of_eq_None_iff)
  then have "dict_get d c db = db" by (simp add: dict_get_def)
  moreover have "c \<in> set (product_coords mx my mz)" using assms(1) by (simp add: set_product_coords_grid)
  ultimately show ?thesis by force
qed

end
